theory Spec2Isabelle
  imports Main "HOL-Library.Sublist"
begin

section \<open>The host application, as far as the script calls it\<close>

text \<open>
  \<^verbatim>\<open>bake_and_export.py\<close> is a plugin script: every line of it is a call into the host
  application (\<^verbatim>\<open>bpy\<close>). The host is modelled as a state record and one step function
  \<open>host_call\<close>, through which every call of the script goes. A host call is logged, with
  the selection and the active object it finds, it may raise, and otherwise it has its
  effect on the scene.
\<close>

text \<open>A scene object: its identity and its \<^verbatim>\<open>name\<close>.\<close>

datatype obj = Obj (oid: nat) (name: string)

text \<open>An exception raised inside the host.\<close>

datatype error = HostError string

text \<open>What a Python call does: it raises, or it returns a value.\<close>

datatype 'a outcome = Raised error | Returned 'a

text \<open>An operator class with its \<^verbatim>\<open>bl_\<close> attributes.\<close>

datatype operator_class = Operator_class (cls_name: string) (bl_idname: string)
  (bl_label: string) (bl_options: "string set")

text \<open>A menu layout is the list of operator identifiers drawn into it.\<close>

type_synonym layout = "string list"

text \<open>
  The host calls of the script, with their arguments in the order of the source:
  \<^verbatim>\<open>bpy.ops.object.select_all(action)\<close>, \<^verbatim>\<open>obj.select_set(state)\<close>,
  \<^verbatim>\<open>bpy.context.view_layer.objects.active = obj\<close>, \<^verbatim>\<open>bpy.ops.object.bake(type, target)\<close>,
  \<^verbatim>\<open>bpy.ops.wm.obj_export(filepath, check_existing, export_selected_objects, export_colors,
  export_materials, export_triangulated_mesh, filter_glob)\<close>, \<^verbatim>\<open>bpy.utils.register_class\<close>,
  \<^verbatim>\<open>bpy.utils.unregister_class\<close> and \<^verbatim>\<open>bpy.types.<menu>.append\<close>.
\<close>

datatype call =
    Select_all string
  | Select_set obj bool
  | Set_active obj
  | Bake string string
  | Obj_export string bool bool bool bool bool string
  | Register_class operator_class
  | Unregister_class operator_class
  | Menu_append string "layout \<Rightarrow> layout"

text \<open>A logged call: the call, the selection and the active object at the time of the call.\<close>

type_synonym event = "call \<times> obj set \<times> obj option"

text \<open>
  The host state. \<open>raises\<close> decides whether the host raises inside a call, from all the
  calls made so far, the current one last: the script has no influence on it.
  \<open>os_path_join\<close> is \<^verbatim>\<open>os.path.join\<close> of the platform the host runs on.
\<close>

record host =
  collections :: "string \<rightharpoonup> obj list"
  objects :: "obj set"
  selected :: "obj set"
  active :: "obj option"
  classes :: "operator_class set"
  menus :: "string \<Rightarrow> (layout \<Rightarrow> layout) list"
  os_path_join :: "string \<Rightarrow> string \<Rightarrow> string"
  raises :: "call list \<Rightarrow> error option"
  trace :: "event list"
  stdout :: "string list"

text \<open>
  The effect of a call that does not raise. The selection is a set of objects:
  \<^verbatim>\<open>select_set\<close> puts an object in or takes it out (the objects are taken to be selectable
  in the view layer), \<^verbatim>\<open>select_all\<close> acts on all objects of the view layer. Baking and
  exporting write mesh data and files, which the script never reads back: they change
  nothing of the state modelled here.
\<close>

fun effect :: "call \<Rightarrow> host \<Rightarrow> host" where
  "effect (Select_all action) h =
     h\<lparr>selected :=
         (if action = ''DESELECT'' then {}
          else if action = ''SELECT'' then objects h
          else if action = ''INVERT'' then objects h - selected h
          else if selected h = {} then objects h else {})\<rparr>"
| "effect (Select_set ob state) h =
     h\<lparr>selected := (if state then insert ob (selected h) else selected h - {ob})\<rparr>"
| "effect (Set_active ob) h = h\<lparr>active := Some ob\<rparr>"
| "effect (Bake ty target) h = h"
| "effect (Obj_export fp ce sel col mat tri glob) h = h"
| "effect (Register_class c) h = h\<lparr>classes := insert c (classes h)\<rparr>"
| "effect (Unregister_class c) h = h\<lparr>classes := classes h - {c}\<rparr>"
| "effect (Menu_append m f) h = h\<lparr>menus := (menus h)(m := menus h m @ [f])\<rparr>"

definition host_call :: "call \<Rightarrow> host \<Rightarrow> unit outcome \<times> host" where
  "host_call c h =
     (let h1 = h\<lparr>trace := trace h @ [(c, selected h, active h)]\<rparr> in
      case raises h (map fst (trace h1)) of
        Some e \<Rightarrow> (Raised e, h1)
      | None \<Rightarrow> (Returned (), effect c h1))"

text \<open>\<^verbatim>\<open>print\<close> writes a line to the console.\<close>

definition print_py :: "string \<Rightarrow> host \<Rightarrow> host" where
  "print_py s h = h\<lparr>stdout := stdout h @ [s]\<rparr>"

text \<open>
  \<^verbatim>\<open>str.lower\<close> on the code points below 256: the ASCII capitals and the capitals of
  Latin-1 (all of \<open>192..222\<close> but the multiplication sign) move up by 32.
\<close>

definition lower_char :: "char \<Rightarrow> char" where
  "lower_char c =
     (let n = (of_char c :: nat) in
      if (65 \<le> n \<and> n \<le> 90) \<or> (192 \<le> n \<and> n \<le> 222 \<and> n \<noteq> 215)
      then char_of (n + 32) else c)"

definition lower :: "string \<Rightarrow> string" where
  "lower s = map lower_char s"

section \<open>The script\<close>

text \<open>
  Statements in sequence: when the first raises, the rest is not run and the exception
  is the outcome (the script has no \<^verbatim>\<open>try\<close>).
\<close>

definition seq :: "(host \<Rightarrow> 'a outcome \<times> host) \<Rightarrow> (host \<Rightarrow> 'b outcome \<times> host)
    \<Rightarrow> host \<Rightarrow> 'b outcome \<times> host" where
  "seq m k h = (case m h of (Raised e, h') \<Rightarrow> (Raised e, h') | (Returned _, h') \<Rightarrow> k h')"

text \<open>What \<^verbatim>\<open>execute\<close> hands back to the host: \<^verbatim>\<open>None\<close> or a set of status strings.\<close>

datatype retval = PyNone | Status "string set"

definition BakeAndExport :: operator_class where
  "BakeAndExport =
     Operator_class ''BakeAndExport'' ''object.bake_and_export'' ''Bake and Export'' {''REGISTER''}"

definition collection_name :: string where
  "collection_name = ''Collection''"

definition output_directory :: string where
  "output_directory = ''C:/dev/rust/rust development/wgpu/New folder/cityscaper/res''"

definition bake_lighting :: "obj \<Rightarrow> host \<Rightarrow> unit outcome \<times> host" where
  "bake_lighting ob =
     seq (host_call (Set_active ob))
    (seq (host_call (Select_all ''DESELECT''))
    (seq (host_call (Select_set ob True))
         (host_call (Bake ''DIFFUSE'' ''VERTEX_COLORS''))))"

definition export_obj :: "obj \<Rightarrow> string \<Rightarrow> host \<Rightarrow> unit outcome \<times> host" where
  "export_obj ob filepath =
     host_call (Obj_export filepath False True True False True ''*.obj;'')"

text \<open>The \<^verbatim>\<open>for obj in collection.objects\<close> loop of \<^verbatim>\<open>execute\<close>.\<close>

primrec for_objects :: "obj list \<Rightarrow> host \<Rightarrow> unit outcome \<times> host" where
  "for_objects [] = (\<lambda>h. (Returned (), h))"
| "for_objects (ob # rest) =
     seq (host_call (Select_set ob True))
    (seq (bake_lighting ob)
    (\<lambda>h. let obj_name = lower (name ob);
             filepath = os_path_join h output_directory (obj_name @ ''.obj'')
         in seq (export_obj ob filepath)
           (seq (host_call (Select_set ob False))
                (for_objects rest)) h))"

definition execute :: "host \<Rightarrow> retval outcome \<times> host" where
  "execute h =
     (case collections h collection_name of
        None \<Rightarrow> (Returned PyNone, print_py ''Collection not found.'' h)
      | Some collection \<Rightarrow>
          seq (host_call (Select_all ''DESELECT''))
         (seq (for_objects collection)
              (\<lambda>h'. (Returned (Status {''FINISHED''}), h'))) h)"

definition menu_func :: "layout \<Rightarrow> layout" where
  "menu_func layout = layout @ [bl_idname BakeAndExport]"

definition register :: "host \<Rightarrow> unit outcome \<times> host" where
  "register =
     seq (host_call (Register_class BakeAndExport))
         (host_call (Menu_append ''VIEW3D_MT_object'' menu_func))"

definition unregister :: "host \<Rightarrow> unit outcome \<times> host" where
  "unregister = host_call (Unregister_class BakeAndExport)"

section \<open>Reading a run\<close>

text \<open>The host calls logged between two states.\<close>

definition new_events :: "host \<Rightarrow> host \<Rightarrow> event list" where
  "new_events h h' = drop (length (trace h)) (trace h')"

fun is_bake :: "call \<Rightarrow> bool" where
  "is_bake (Bake ty target) = True"
| "is_bake _ = False"


text \<open>The file paths of the export calls of a sequence of calls, in order.\<close>

fun export_filepaths :: "call list \<Rightarrow> string list" where
  "export_filepaths [] = []"
| "export_filepaths (Obj_export fp ce sel col mat tri glob # cs) = fp # export_filepaths cs"
| "export_filepaths (c # cs) = export_filepaths cs"

text \<open>
  The specification's reading of \<^verbatim>\<open>execute\<close>, to compare with the code: one deselect-all,
  then for each object of the collection, in order, the calls of one pass of the loop
  (select, make active, deselect all, select, bake, export, deselect).
\<close>

definition obj_calls :: "(string \<Rightarrow> string \<Rightarrow> string) \<Rightarrow> obj \<Rightarrow> call list" where
  "obj_calls join ob =
     [Select_set ob True,
      Set_active ob,
      Select_all ''DESELECT'',
      Select_set ob True,
      Bake ''DIFFUSE'' ''VERTEX_COLORS'',
      Obj_export (join output_directory (lower (name ob) @ ''.obj''))
        False True True False True ''*.obj;'',
      Select_set ob False]"

definition expected_calls :: "(string \<Rightarrow> string \<Rightarrow> string) \<Rightarrow> obj list \<Rightarrow> call list" where
  "expected_calls join obs = Select_all ''DESELECT'' # concat (map (obj_calls join) obs)"

text \<open>A list of host calls made one after the other, up to the first that raises.\<close>

primrec run :: "call list \<Rightarrow> host \<Rightarrow> unit outcome \<times> host" where
  "run [] = (\<lambda>h. (Returned (), h))"
| "run (c # cs) = seq (host_call c) (run cs)"

text \<open>What the host logs for a list of calls none of which raises.\<close>

primrec sim :: "call list \<Rightarrow> host \<Rightarrow> event list" where
  "sim [] h = []"
| "sim (c # cs) h = (c, selected h, active h) # sim cs (effect c h)"

section \<open>Example hosts\<close>

text \<open>
  A scene with a collection of two objects and a third object, selected, outside of it;
  the host raises nowhere and joins paths with a slash.
\<close>

definition demo_host :: host where
  "demo_host =
     \<lparr>collections = [''Collection'' \<mapsto> [Obj 1 ''Cube'', Obj 2 ''Lamp'']],
      objects = {Obj 1 ''Cube'', Obj 2 ''Lamp'', Obj 3 ''Camera''},
      selected = {Obj 3 ''Camera''},
      active = None,
      classes = {},
      menus = (\<lambda>m. []),
      os_path_join = (\<lambda>a b. a @ ''/'' @ b),
      raises = (\<lambda>cs. None),
      trace = [],
      stdout = []\<rparr>"

text \<open>The same scene without the collection the script looks for.\<close>

definition bare_host :: host where
  "bare_host = demo_host\<lparr>collections := Map.empty\<rparr>"

text \<open>The same scene on a host whose bake operator raises.\<close>

definition failing_host :: host where
  "failing_host =
     demo_host\<lparr>raises := (\<lambda>cs. if cs \<noteq> [] \<and> is_bake (last cs)
                                then Some (HostError ''bake failed'') else None)\<rparr>"


section \<open>The host step and the loop\<close>

lemma effect_frame [simp]:
  "os_path_join (effect c h) = os_path_join h"
  "raises (effect c h) = raises h"
  "trace (effect c h) = trace h"
  "collections (effect c h) = collections h"
  "stdout (effect c h) = stdout h"
  "objects (effect c h) = objects h"
  by (cases c; simp)+

lemma effect_trace_update [simp]:
  "effect c (h\<lparr>trace := t\<rparr>) = (effect c h)\<lparr>trace := t\<rparr>"
  by (cases c) simp_all

lemma fold_effect_trace_update:
  "fold effect cs (h\<lparr>trace := t\<rparr>) = (fold effect cs h)\<lparr>trace := t\<rparr>"
  by (induction cs arbitrary: h) simp_all

lemma sim_trace_update [simp]: "sim cs (h\<lparr>trace := t\<rparr>) = sim cs h"
  by (induction cs arbitrary: h) simp_all

lemma map_fst_sim [simp]: "map fst (sim cs h) = cs"
  by (induction cs arbitrary: h) simp_all

lemma length_sim [simp]: "length (sim cs h) = length cs"
  by (induction cs arbitrary: h) simp_all

lemma sim_append: "sim (xs @ ys) h = sim xs h @ sim ys (fold effect xs h)"
  by (induction xs arbitrary: h) simp_all

lemma host_call_cases:
  "host_call c h =
     (case raises h (map fst (trace h) @ [c]) of
        Some e \<Rightarrow> (Raised e, h\<lparr>trace := trace h @ [(c, selected h, active h)]\<rparr>)
      | None \<Rightarrow> (Returned (), (effect c h)\<lparr>trace := trace h @ [(c, selected h, active h)]\<rparr>))"
  by (simp add: host_call_def Let_def split: option.split)

text \<open>The loop makes the calls of \<open>obj_calls\<close>, object after object.\<close>

lemma for_objects_run:
  "for_objects obs h = run (concat (map (obj_calls (os_path_join h)) obs)) h"
proof (induction obs arbitrary: h)
  case Nil
  show ?case by simp
next
  case (Cons ob rest)
  show ?case
    by (simp add: obj_calls_def seq_def host_call_cases bake_lighting_def export_obj_def
        Cons.IH split: option.split)
qed

lemma execute_run:
  assumes "collections h collection_name = Some obs"
  shows "execute h =
     (case run (expected_calls (os_path_join h) obs) h of
        (Raised e, h') \<Rightarrow> (Raised e, h')
      | (Returned u, h') \<Rightarrow> (Returned (Status {''FINISHED''}), h'))"
  using assms
  by (simp add: execute_def expected_calls_def seq_def host_call_cases for_objects_run
      split: option.split prod.split outcome.split)

text \<open>
  A run logs a prefix of what the calls would log. The host raised in none of the calls
  but, when the run raised, the last, and there it raised what the run raised.
\<close>

lemma run_spec:
  "run cs h = (out, h') \<Longrightarrow>
     \<exists>n\<le>length cs.
        trace h' = trace h @ take n (sim cs h)
      \<and> raises h' = raises h
      \<and> (\<forall>k<n. raises h (map fst (trace h) @ take (Suc k) cs) =
             (if Suc k = n then (case out of Raised e \<Rightarrow> Some e | Returned u \<Rightarrow> None)
              else None))
      \<and> (case out of
           Returned u \<Rightarrow> n = length cs \<and> h' = (fold effect cs h)\<lparr>trace := trace h'\<rparr>
         | Raised e \<Rightarrow> 0 < n)"
proof (induction cs arbitrary: h)
  case Nil
  then show ?case by auto
next
  case (Cons c cs)
  let ?ev = "(c, selected h, active h)"
  show ?case
  proof (cases "raises h (map fst (trace h) @ [c])")
    case (Some e)
    with Cons.prems have "out = Raised e" "h' = h\<lparr>trace := trace h @ [?ev]\<rparr>"
      by (auto simp: seq_def host_call_cases)
    with Some show ?thesis
      by (intro exI[of _ 1]) simp
  next
    case None
    let ?h1 = "(effect c h)\<lparr>trace := trace h @ [?ev]\<rparr>"
    from None Cons.prems have r: "run cs ?h1 = (out, h')"
      by (auto simp: seq_def host_call_cases)
    from Cons.IH[OF r] obtain n where n: "n \<le> length cs"
      "trace h' = trace ?h1 @ take n (sim cs ?h1)"
      "raises h' = raises ?h1"
      "\<forall>k<n. raises ?h1 (map fst (trace ?h1) @ take (Suc k) cs) =
             (if Suc k = n then (case out of Raised e \<Rightarrow> Some e | Returned u \<Rightarrow> None)
              else None)"
      "case out of
           Returned u \<Rightarrow> n = length cs \<and> h' = (fold effect cs ?h1)\<lparr>trace := trace h'\<rparr>
         | Raised e \<Rightarrow> 0 < n"
      by blast
    have a: "Suc n \<le> length (c # cs)" using n(1) by simp
    have b: "trace h' = trace h @ take (Suc n) (sim (c # cs) h)"
      using n(2) by simp
    have c: "raises h' = raises h" using n(3) by simp
    have d: "\<forall>k<Suc n. raises h (map fst (trace h) @ take (Suc k) (c # cs)) =
             (if Suc k = Suc n then (case out of Raised e \<Rightarrow> Some e | Returned u \<Rightarrow> None)
              else None)"
    proof (intro allI impI)
      fix k assume k: "k < Suc n"
      show "raises h (map fst (trace h) @ take (Suc k) (c # cs)) =
             (if Suc k = Suc n then (case out of Raised e \<Rightarrow> Some e | Returned u \<Rightarrow> None)
              else None)"
      proof (cases k)
        case 0
        have "0 < n \<or> n = 0" by auto
        then show ?thesis
        proof
          assume "0 < n" with 0 None show ?thesis by simp
        next
          assume "n = 0"
          with n(5) have "\<exists>u. out = Returned u" by (cases out) auto
          with 0 None \<open>n = 0\<close> show ?thesis by auto
        qed
      next
        case (Suc j)
        with k have "j < n" by simp
        with n(4) have "raises ?h1 (map fst (trace ?h1) @ take (Suc j) cs) =
             (if Suc j = n then (case out of Raised e \<Rightarrow> Some e | Returned u \<Rightarrow> None)
              else None)"
          by blast
        with Suc show ?thesis by simp
      qed
    qed
    have e: "case out of
           Returned u \<Rightarrow> Suc n = length (c # cs)
              \<and> h' = (fold effect (c # cs) h)\<lparr>trace := trace h'\<rparr>
         | Raised e \<Rightarrow> 0 < Suc n"
      using n(5) by (cases out) (simp_all add: fold_effect_trace_update)
    from a b c d e show ?thesis by blast
  qed
qed


lemma execute_spec:
  assumes "collections h collection_name = Some obs"
  shows "\<exists>n\<le>length (expected_calls (os_path_join h) obs).
        trace (snd (execute h)) = trace h @ take n (sim (expected_calls (os_path_join h) obs) h)
      \<and> (\<forall>k<n. raises h (map fst (trace h) @ take (Suc k) (expected_calls (os_path_join h) obs)) =
             (if Suc k = n then (case fst (execute h) of Raised e \<Rightarrow> Some e | Returned u \<Rightarrow> None)
              else None))
      \<and> (case fst (execute h) of
           Returned r \<Rightarrow> r = Status {''FINISHED''}
              \<and> n = length (expected_calls (os_path_join h) obs)
              \<and> selected (snd (execute h)) =
                  selected (fold effect (expected_calls (os_path_join h) obs) h)
         | Raised e \<Rightarrow> 0 < n)"
proof -
  let ?cs = "expected_calls (os_path_join h) obs"
  obtain out h' where r: "run ?cs h = (out, h')" by (cases "run ?cs h")
  from run_spec [OF r] obtain n where n: "n \<le> length ?cs"
      "trace h' = trace h @ take n (sim ?cs h)"
      "\<forall>k<n. raises h (map fst (trace h) @ take (Suc k) ?cs) =
             (if Suc k = n then (case out of Raised e \<Rightarrow> Some e | Returned u \<Rightarrow> None)
              else None)"
      "case out of
           Returned u \<Rightarrow> n = length ?cs \<and> h' = (fold effect ?cs h)\<lparr>trace := trace h'\<rparr>
         | Raised e \<Rightarrow> 0 < n"
    by blast
  show ?thesis
  proof (cases out)
    case (Raised e)
    with r assms have "execute h = (Raised e, h')" by (simp add: execute_run)
    with n Raised show ?thesis by (intro exI[of _ n]) simp
  next
    case (Returned u)
    with r assms have ex: "execute h = (Returned (Status {''FINISHED''}), h')"
      by (simp add: execute_run)
    from n(4) Returned have "selected h' = selected ((fold effect ?cs h)\<lparr>trace := trace h'\<rparr>)"
      by simp
    then have "selected h' = selected (fold effect ?cs h)" by simp
    with ex n Returned show ?thesis by (intro exI[of _ n]) simp
  qed
qed

lemma new_events_append [simp]: "trace h' = trace h @ evs \<Longrightarrow> new_events h h' = evs"
  by (simp add: new_events_def)







lemma export_filepaths_append:
  "export_filepaths (xs @ ys) = export_filepaths xs @ export_filepaths ys"
  by (induction xs rule: export_filepaths.induct) simp_all

lemma export_filepaths_loop:
  "export_filepaths (concat (map (obj_calls j) obs)) =
   map (\<lambda>ob. j output_directory (lower (name ob) @ ''.obj'')) obs"
  by (induction obs) (simp_all add: obj_calls_def)

lemma export_filepaths_take:
  "prefix (export_filepaths (take n cs)) (export_filepaths cs)"
proof -
  have "export_filepaths cs = export_filepaths (take n cs) @ export_filepaths (drop n cs)"
    by (simp add: export_filepaths_append [symmetric])
  then show ?thesis by (metis prefixI)
qed

lemma execute_returns_if_no_raise:
  assumes "collections h collection_name = Some obs" and "\<forall>cs. raises h cs = None"
  shows "fst (execute h) = Returned (Status {''FINISHED''})"
proof -
  let ?cs = "expected_calls (os_path_join h) obs"
  from execute_spec [OF assms(1)] obtain n where n: "n \<le> length ?cs"
    "trace (snd (execute h)) = trace h @ take n (sim ?cs h)"
    "\<forall>k<n. raises h (map fst (trace h) @ take (Suc k) ?cs) =
             (if Suc k = n then (case fst (execute h) of Raised e \<Rightarrow> Some e | Returned u \<Rightarrow> None)
              else None)"
    "case fst (execute h) of
           Returned r \<Rightarrow> r = Status {''FINISHED''}
              \<and> n = length ?cs
              \<and> selected (snd (execute h)) = selected (fold effect ?cs h)
         | Raised e \<Rightarrow> 0 < n"
    by blast
  show ?thesis
  proof (cases "fst (execute h)")
    case (Raised e)
    with n(4) have "n - 1 < n" by simp
    with n(3) Raised have "raises h (map fst (trace h) @ take (Suc (n - 1)) ?cs) = Some e"
      by auto
    with assms(2) show ?thesis by simp
  next
    case (Returned r)
    with n(4) show ?thesis by simp
  qed
qed

lemma register_cases:
  "register h =
     (case raises h (map fst (trace h) @ [Register_class BakeAndExport]) of
        Some e \<Rightarrow> (Raised e, h\<lparr>trace := trace h @ [(Register_class BakeAndExport, selected h, active h)]\<rparr>)
      | None \<Rightarrow>
         (case raises h (map fst (trace h) @ [Register_class BakeAndExport,
                   Menu_append ''VIEW3D_MT_object'' menu_func]) of
            Some e \<Rightarrow> (Raised e, h\<lparr>classes := insert BakeAndExport (classes h),
                 trace := trace h @ [(Register_class BakeAndExport, selected h, active h),
                    (Menu_append ''VIEW3D_MT_object'' menu_func, selected h, active h)]\<rparr>)
          | None \<Rightarrow> (Returned (), h\<lparr>classes := insert BakeAndExport (classes h),
                 menus := (menus h)(''VIEW3D_MT_object'' := menus h ''VIEW3D_MT_object'' @ [menu_func]),
                 trace := trace h @ [(Register_class BakeAndExport, selected h, active h),
                    (Menu_append ''VIEW3D_MT_object'' menu_func, selected h, active h)]\<rparr>)))"
  by (simp add: register_def seq_def host_call_cases split: option.split)


section \<open>The example hosts, evaluated\<close>

lemma lower_names: "lower ''Cube'' = ''cube''" "lower ''Lamp'' = ''lamp''"
  by code_simp+

lemma demo_found:
  "collections demo_host collection_name = Some [Obj 1 ''Cube'', Obj 2 ''Lamp'']"
  by (simp add: demo_host_def collection_name_def)

lemma demo_no_raise: "\<forall>cs. raises demo_host cs = None"
  by (simp add: demo_host_def)

lemma demo_returns: "fst (execute demo_host) = Returned (Status {''FINISHED''})"
  using demo_found demo_no_raise by (rule execute_returns_if_no_raise)

lemma demo_join: "os_path_join demo_host a b = a @ ''/'' @ b"
  by (simp add: demo_host_def)



lemma failing_run:
  "fst (execute failing_host) = Raised (HostError ''bake failed'')"
  "trace (snd (execute failing_host)) =
     [(Select_all ''DESELECT'', {Obj 3 ''Camera''}, None),
      (Select_set (Obj 1 ''Cube'') True, {}, None),
      (Set_active (Obj 1 ''Cube''), {Obj 1 ''Cube''}, None),
      (Select_all ''DESELECT'', {Obj 1 ''Cube''}, Some (Obj 1 ''Cube'')),
      (Select_set (Obj 1 ''Cube'') True, {}, Some (Obj 1 ''Cube'')),
      (Bake ''DIFFUSE'' ''VERTEX_COLORS'', {Obj 1 ''Cube''}, Some (Obj 1 ''Cube''))]"
  "trace failing_host = []"
  "raises failing_host cs =
     (if cs \<noteq> [] \<and> is_bake (last cs) then Some (HostError ''bake failed'') else None)"
  by (simp_all add: execute_def failing_host_def demo_host_def collection_name_def seq_def
      host_call_cases bake_lighting_def)

lemma demo_register:
  "fst (register demo_host) = Returned ()"
  "fst (unregister (snd (register demo_host))) = Returned ()"
  "classes demo_host = {}"
  "menus demo_host m = []"
  by (simp_all add: register_cases unregister_def host_call_cases demo_host_def)


section \<open>The collection is not found\<close>

text \<open>
  Claim C3. When no collection has the name \<^verbatim>\<open>Collection\<close>, \<^verbatim>\<open>execute\<close> prints
  \<^verbatim>\<open>Collection not found.\<close> and returns: it raises nothing, and what it returns is
  \<^verbatim>\<open>None\<close>, which is no status set at all, so no failure status.
\<close>

theorem execute_not_found_returns_none:
  assumes "collections h collection_name = None"
  shows "fst (execute h) = Returned PyNone
       \<and> stdout (snd (execute h)) = stdout h @ [''Collection not found.'']
       \<and> (\<forall>s. fst (execute h) \<noteq> Returned (Status s))
       \<and> (\<forall>e. fst (execute h) \<noteq> Raised e)"
  using assms by (simp add: execute_def print_py_def)

theorem execute_not_found_returns_none_witness:
  "collections bare_host collection_name = None
   \<and> fst (execute bare_host) = Returned PyNone
   \<and> stdout (snd (execute bare_host)) = [''Collection not found.'']"
proof -
  have c: "collections bare_host collection_name = None"
    by (simp add: bare_host_def demo_host_def)
  have s: "stdout bare_host = []"
    by (simp add: bare_host_def demo_host_def)
  from execute_not_found_returns_none [OF c] c s show ?thesis by simp
qed

text \<open>
  Claim C4. When the collection is not found, \<^verbatim>\<open>execute\<close> makes no host call at all (no
  bake, no export, no selection change): the host state it leaves is the state it found,
  with the printed line added to the console.
\<close>

theorem execute_not_found_unchanged:
  assumes "collections h collection_name = None"
  shows "snd (execute h) = h\<lparr>stdout := stdout h @ [''Collection not found.'']\<rparr>
       \<and> new_events h (snd (execute h)) = []
       \<and> trace (snd (execute h)) = trace h
       \<and> selected (snd (execute h)) = selected h
       \<and> active (snd (execute h)) = active h"
  using assms by (simp add: execute_def print_py_def new_events_def)

theorem execute_not_found_unchanged_witness:
  "collections bare_host collection_name = None
   \<and> new_events bare_host (snd (execute bare_host)) = []
   \<and> selected (snd (execute bare_host)) = {Obj 3 ''Camera''}
   \<and> active (snd (execute bare_host)) = None"
proof -
  have c: "collections bare_host collection_name = None"
    by (simp add: bare_host_def demo_host_def)
  have s: "selected bare_host = {Obj 3 ''Camera''}" "active bare_host = None"
    by (simp_all add: bare_host_def demo_host_def)
  from execute_not_found_unchanged [OF c] c s show ?thesis
    by (simp add: new_events_def)
qed

section \<open>A collection that is found\<close>



text \<open>
  Claim C2. The file paths of the export calls are, in the order of the collection,
  \<^verbatim>\<open>os.path.join\<close> of the output directory and the lowercased name of the object with
  \<^verbatim>\<open>.obj\<close> appended. The directory and the extension are constants of the script. A run
  that raises has made the export calls of the first objects only; a run that returns has
  made all of them.
\<close>

theorem execute_export_paths:
  assumes "collections h collection_name = Some obs"
  shows "prefix (export_filepaths (map fst (new_events h (snd (execute h)))))
           (map (\<lambda>ob. os_path_join h output_directory (lower (name ob) @ ''.obj'')) obs)
       \<and> (\<forall>r. fst (execute h) = Returned r \<longrightarrow>
            export_filepaths (map fst (new_events h (snd (execute h)))) =
            map (\<lambda>ob. os_path_join h output_directory (lower (name ob) @ ''.obj'')) obs)"
proof -
  let ?cs = "expected_calls (os_path_join h) obs"
  from execute_spec [OF assms] obtain n where n: "n \<le> length ?cs"
    "trace (snd (execute h)) = trace h @ take n (sim ?cs h)"
    "case fst (execute h) of Returned r \<Rightarrow> n = length ?cs | Raised e \<Rightarrow> 0 < n"
    by (auto split: outcome.splits)
  from n(2) have ev: "map fst (new_events h (snd (execute h))) = take n ?cs"
    by (simp add: take_map [symmetric])
  have all: "export_filepaths ?cs =
      map (\<lambda>ob. os_path_join h output_directory (lower (name ob) @ ''.obj'')) obs"
    by (simp add: expected_calls_def export_filepaths_loop)
  have 1: "prefix (export_filepaths (map fst (new_events h (snd (execute h)))))
           (map (\<lambda>ob. os_path_join h output_directory (lower (name ob) @ ''.obj'')) obs)"
    using export_filepaths_take [of n ?cs] by (simp add: ev all)
  have 2: "\<forall>r. fst (execute h) = Returned r \<longrightarrow>
            export_filepaths (map fst (new_events h (snd (execute h)))) =
            map (\<lambda>ob. os_path_join h output_directory (lower (name ob) @ ''.obj'')) obs"
    using n(3) by (auto simp: ev all)
  from 1 2 show ?thesis by blast
qed

theorem execute_export_paths_witness:
  "collections demo_host collection_name = Some [Obj 1 ''Cube'', Obj 2 ''Lamp'']
   \<and> fst (execute demo_host) = Returned (Status {''FINISHED''})
   \<and> export_filepaths (map fst (new_events demo_host (snd (execute demo_host)))) =
       [''C:/dev/rust/rust development/wgpu/New folder/cityscaper/res/cube.obj'',
        ''C:/dev/rust/rust development/wgpu/New folder/cityscaper/res/lamp.obj'']"
  using execute_export_paths [OF demo_found] demo_found demo_returns
  by (simp add: demo_join lower_names output_directory_def)

text \<open>
  Claim C5. In every run of \<^verbatim>\<open>execute\<close> the host calls are made one after the other in
  the order of \<open>expected_calls\<close>: one deselect-all, then for each object of the collection,
  in the order of the collection, select, make active, deselect all, select, bake, export,
  deselect. A run that raises stops inside this sequence, a run that returns has made all
  of it; so the bake of an object always comes before its export, and no call for an
  object is made before the calls for the objects before it. Without the collection no
  host call is made.
\<close>

theorem execute_call_order:
  "prefix (map fst (new_events h (snd (execute h))))
     (case collections h collection_name of
        None \<Rightarrow> []
      | Some obs \<Rightarrow> expected_calls (os_path_join h) obs)
   \<and> (\<forall>r. fst (execute h) = Returned r \<longrightarrow>
        map fst (new_events h (snd (execute h))) =
          (case collections h collection_name of
             None \<Rightarrow> []
           | Some obs \<Rightarrow> expected_calls (os_path_join h) obs))"
proof (cases "collections h collection_name")
  case None
  then show ?thesis by (simp add: execute_def print_py_def new_events_def)
next
  case (Some obs)
  let ?cs = "expected_calls (os_path_join h) obs"
  from execute_spec [OF Some] obtain n where n: "n \<le> length ?cs"
    "trace (snd (execute h)) = trace h @ take n (sim ?cs h)"
    "\<forall>k<n. raises h (map fst (trace h) @ take (Suc k) ?cs) =
             (if Suc k = n then (case fst (execute h) of Raised e \<Rightarrow> Some e | Returned u \<Rightarrow> None)
              else None)"
    "case fst (execute h) of
           Returned r \<Rightarrow> r = Status {''FINISHED''}
              \<and> n = length ?cs
              \<and> selected (snd (execute h)) = selected (fold effect ?cs h)
         | Raised e \<Rightarrow> 0 < n"
    by blast
  from n(2) have ev: "map fst (new_events h (snd (execute h))) = take n ?cs"
    by (simp add: take_map [symmetric])
  have 1: "prefix (map fst (new_events h (snd (execute h)))) ?cs"
    by (simp add: ev take_is_prefix)
  have 2: "\<forall>r. fst (execute h) = Returned r \<longrightarrow> map fst (new_events h (snd (execute h))) = ?cs"
    using n(4) by (auto simp: ev)
  from 1 2 Some show ?thesis by simp
qed

theorem execute_call_order_witness:
  "fst (execute demo_host) = Returned (Status {''FINISHED''})
   \<and> map fst (new_events demo_host (snd (execute demo_host))) =
       [Select_all ''DESELECT'',
        Select_set (Obj 1 ''Cube'') True,
        Set_active (Obj 1 ''Cube''),
        Select_all ''DESELECT'',
        Select_set (Obj 1 ''Cube'') True,
        Bake ''DIFFUSE'' ''VERTEX_COLORS'',
        Obj_export ''C:/dev/rust/rust development/wgpu/New folder/cityscaper/res/cube.obj''
          False True True False True ''*.obj;'',
        Select_set (Obj 1 ''Cube'') False,
        Select_set (Obj 2 ''Lamp'') True,
        Set_active (Obj 2 ''Lamp''),
        Select_all ''DESELECT'',
        Select_set (Obj 2 ''Lamp'') True,
        Bake ''DIFFUSE'' ''VERTEX_COLORS'',
        Obj_export ''C:/dev/rust/rust development/wgpu/New folder/cityscaper/res/lamp.obj''
          False True True False True ''*.obj;'',
        Select_set (Obj 2 ''Lamp'') False]"
  using execute_call_order [of demo_host] demo_found demo_returns
  by (simp add: demo_join lower_names output_directory_def expected_calls_def obj_calls_def)

text \<open>
  Claim C7. When the host raises an error inside a call that \<^verbatim>\<open>execute\<close> makes (a bake
  call and an export call among them), that call is the last host call of the run, and
  \<^verbatim>\<open>execute\<close> raises that same error: nothing is retried, handled or replaced.
\<close>

theorem execute_propagates_host_errors:
  assumes "k < length (new_events h (snd (execute h)))"
      and "raises h (map fst (take (length (trace h) + Suc k) (trace (snd (execute h))))) = Some e"
  shows "fst (execute h) = Raised e \<and> Suc k = length (new_events h (snd (execute h)))"
proof (cases "collections h collection_name")
  case None
  with assms(1) show ?thesis by (simp add: execute_def print_py_def new_events_def)
next
  case (Some obs)
  let ?cs = "expected_calls (os_path_join h) obs"
  from execute_spec [OF Some] obtain n where n: "n \<le> length ?cs"
    "trace (snd (execute h)) = trace h @ take n (sim ?cs h)"
    "\<forall>k<n. raises h (map fst (trace h) @ take (Suc k) ?cs) =
             (if Suc k = n then (case fst (execute h) of Raised e \<Rightarrow> Some e | Returned u \<Rightarrow> None)
              else None)"
    "case fst (execute h) of
           Returned r \<Rightarrow> r = Status {''FINISHED''}
              \<and> n = length ?cs
              \<and> selected (snd (execute h)) = selected (fold effect ?cs h)
         | Raised e \<Rightarrow> 0 < n"
    by blast
  from n(2) have ev: "new_events h (snd (execute h)) = take n (sim ?cs h)" by simp
  with n(1) have len: "length (new_events h (snd (execute h))) = n" by simp
  with assms(1) have k: "k < n" by simp
  have "map fst (take (length (trace h) + Suc k) (trace (snd (execute h)))) =
        map fst (trace h) @ take (Suc k) ?cs"
    using k by (simp add: n(2) take_map [symmetric] min_def)
  with assms(2) have "raises h (map fst (trace h) @ take (Suc k) ?cs) = Some e" by simp
  with n(3) k have "(if Suc k = n then (case fst (execute h) of Raised e \<Rightarrow> Some e | Returned u \<Rightarrow> None)
              else None) = Some e" by auto
  then have "Suc k = n \<and> fst (execute h) = Raised e"
    by (auto split: if_splits outcome.splits)
  with len show ?thesis by simp
qed

theorem execute_propagates_host_errors_witness:
  "5 < length (new_events failing_host (snd (execute failing_host)))
   \<and> is_bake (fst (new_events failing_host (snd (execute failing_host)) ! 5))
   \<and> raises failing_host (map fst (take (length (trace failing_host) + Suc 5)
         (trace (snd (execute failing_host))))) = Some (HostError ''bake failed'')
   \<and> fst (execute failing_host) = Raised (HostError ''bake failed'')
   \<and> length (new_events failing_host (snd (execute failing_host))) = 6"
proof -
  have a: "5 < length (new_events failing_host (snd (execute failing_host)))"
    by (simp add: new_events_def failing_run)
  have b: "raises failing_host (map fst (take (length (trace failing_host) + Suc 5)
         (trace (snd (execute failing_host))))) = Some (HostError ''bake failed'')"
    by (simp add: failing_run)
  have c: "is_bake (fst (new_events failing_host (snd (execute failing_host)) ! 5))"
    by (simp add: new_events_def failing_run)
  from execute_propagates_host_errors [OF a b] a b c show ?thesis by simp
qed





section \<open>Registration\<close>

text \<open>
  Claim C6. \<^verbatim>\<open>register\<close> registers the class \<^verbatim>\<open>BakeAndExport\<close> with the host and then
  appends \<^verbatim>\<open>menu_func\<close>, which draws the operator \<^verbatim>\<open>object.bake_and_export\<close>, to the host
  menu \<^verbatim>\<open>VIEW3D_MT_object\<close>; the other menus stay as they are. It returns whenever the host
  raises in neither call.
\<close>

theorem register_registers_class_and_appends_menu:
  "(\<forall>u. fst (register h) = Returned u \<longrightarrow>
       map fst (new_events h (snd (register h))) =
         [Register_class BakeAndExport, Menu_append ''VIEW3D_MT_object'' menu_func]
     \<and> classes (snd (register h)) = insert BakeAndExport (classes h)
     \<and> menus (snd (register h)) ''VIEW3D_MT_object'' = menus h ''VIEW3D_MT_object'' @ [menu_func]
     \<and> (\<forall>m. m \<noteq> ''VIEW3D_MT_object'' \<longrightarrow> menus (snd (register h)) m = menus h m))
   \<and> ((\<forall>cs. raises h cs = None) \<longrightarrow> fst (register h) = Returned ())
   \<and> (\<forall>layout. menu_func layout = layout @ [''object.bake_and_export''])"
  by (auto simp: register_cases new_events_def menu_func_def BakeAndExport_def split: option.splits)

theorem register_registers_class_and_appends_menu_witness:
  "(\<forall>cs. raises demo_host cs = None)
   \<and> fst (register demo_host) = Returned ()
   \<and> map fst (new_events demo_host (snd (register demo_host))) =
         [Register_class BakeAndExport, Menu_append ''VIEW3D_MT_object'' menu_func]
   \<and> classes (snd (register demo_host)) = {BakeAndExport}
   \<and> menus (snd (register demo_host)) ''VIEW3D_MT_object'' = [menu_func]
   \<and> menu_func [] = [''object.bake_and_export'']"
  using register_registers_class_and_appends_menu [of demo_host] demo_no_raise demo_register
  by simp

text \<open>
  Claim C8. \<^verbatim>\<open>register\<close> followed by \<^verbatim>\<open>unregister\<close> does not give back the menus of the
  host: \<^verbatim>\<open>unregister\<close> makes one host call, which removes the class, and leaves the menus
  as \<^verbatim>\<open>register\<close> left them, with the appended entry still in \<^verbatim>\<open>VIEW3D_MT_object\<close>.
\<close>

theorem unregister_keeps_menu_entry:
  assumes "fst (register h) = Returned ()"
      and "fst (unregister (snd (register h))) = Returned ()"
  shows "menus (snd (unregister (snd (register h)))) ''VIEW3D_MT_object'' =
           menus h ''VIEW3D_MT_object'' @ [menu_func]
       \<and> menus (snd (unregister (snd (register h)))) \<noteq> menus h
       \<and> menus (snd (unregister (snd (register h)))) = menus (snd (register h))
       \<and> BakeAndExport \<notin> classes (snd (unregister (snd (register h))))
       \<and> map fst (new_events (snd (register h)) (snd (unregister (snd (register h))))) =
           [Unregister_class BakeAndExport]"
proof -
  let ?h1 = "snd (register h)"
  let ?h2 = "snd (unregister ?h1)"
  from assms(1) have m1: "menus ?h1 ''VIEW3D_MT_object'' = menus h ''VIEW3D_MT_object'' @ [menu_func]"
    by (auto simp: register_cases split: option.splits)
  from assms(2) have u: "menus ?h2 = menus ?h1" "BakeAndExport \<notin> classes ?h2"
     "map fst (new_events ?h1 ?h2) = [Unregister_class BakeAndExport]"
    by (auto simp: unregister_def host_call_cases new_events_def split: option.splits)
  from m1 u(1) have "menus ?h2 ''VIEW3D_MT_object'' \<noteq> menus h ''VIEW3D_MT_object''" by simp
  then have "menus ?h2 \<noteq> menus h" by auto
  with m1 u show ?thesis by simp
qed

theorem unregister_keeps_menu_entry_witness:
  "fst (register demo_host) = Returned ()
   \<and> fst (unregister (snd (register demo_host))) = Returned ()
   \<and> menus demo_host ''VIEW3D_MT_object'' = []
   \<and> menus (snd (unregister (snd (register demo_host)))) ''VIEW3D_MT_object'' = [menu_func]
   \<and> BakeAndExport \<notin> classes (snd (unregister (snd (register demo_host))))"
proof -
  from unregister_keeps_menu_entry [OF demo_register(1) demo_register(2)]
  have "menus (snd (unregister (snd (register demo_host)))) ''VIEW3D_MT_object'' =
          menus demo_host ''VIEW3D_MT_object'' @ [menu_func]"
    and "BakeAndExport \<notin> classes (snd (unregister (snd (register demo_host))))"
    by blast+
  with demo_register show ?thesis by simp
qed

end
